theory Spec2Isabelle
  imports Main
begin

section \<open>Energy measures (mirtk/EnergyMeasure.h)\<close>

text \<open>
  The enumeration of all energy terms, in declaration order. The five categories are
  delimited by pairs of sentinels (\<open>SIM_Begin\<close>/\<open>SIM_End\<close>, ...); \<open>EM_Unknown\<close> is the
  first enumerator and \<open>EM_Last\<close> the trailing one.
\<close>

datatype EnergyMeasure =
    EM_Unknown
  | SIM_Begin
  | EM_JE | EM_CC | EM_MI | EM_NMI | EM_SSD | EM_CR_XY | EM_CR_YX
  | EM_LC | EM_K | EM_ML | EM_NGF_COS | EM_LNCC
  | SIM_End
  | PDM_Begin
  | EM_FRE | EM_CorrespondenceDistance | EM_CurrentsDistance | EM_VarifoldDistance
  | PDM_End
  | EFT_Begin
  | EM_BalloonForce | EM_ImageEdgeForce | EM_ImplicitSurfaceDistance
  | EM_ImplicitSurfaceSpringForce
  | EFT_End
  | IFT_Begin
  | EM_MetricDistortion | EM_Stretching | EM_Curvature | EM_QuadraticCurvature
  | EM_NonSelfIntersection | EM_RepulsiveForce | EM_InflationForce | EM_SpringForce
  | IFT_End
  | CM_Begin
  | EM_VolumePreservation | EM_TopologyPreservation | EM_Sparsity | EM_BendingEnergy
  | EM_L0Norm | EM_L1Norm | EM_L2Norm | EM_SqLogDetJac | EM_MinDetJac
  | CM_End
  | EM_Last

text \<open>
  The enumerators in declaration order: the position of an enumerator in this list is
  its underlying integer value (C++ numbers them from 0 in steps of 1).
\<close>

definition EM_enumerators :: "EnergyMeasure list" where
  "EM_enumerators =
    [EM_Unknown,
     SIM_Begin,
     EM_JE, EM_CC, EM_MI, EM_NMI, EM_SSD, EM_CR_XY, EM_CR_YX,
     EM_LC, EM_K, EM_ML, EM_NGF_COS, EM_LNCC,
     SIM_End,
     PDM_Begin,
     EM_FRE, EM_CorrespondenceDistance, EM_CurrentsDistance, EM_VarifoldDistance,
     PDM_End,
     EFT_Begin,
     EM_BalloonForce, EM_ImageEdgeForce, EM_ImplicitSurfaceDistance,
     EM_ImplicitSurfaceSpringForce,
     EFT_End,
     IFT_Begin,
     EM_MetricDistortion, EM_Stretching, EM_Curvature, EM_QuadraticCurvature,
     EM_NonSelfIntersection, EM_RepulsiveForce, EM_InflationForce, EM_SpringForce,
     IFT_End,
     CM_Begin,
     EM_VolumePreservation, EM_TopologyPreservation, EM_Sparsity, EM_BendingEnergy,
     EM_L0Norm, EM_L1Norm, EM_L2Norm, EM_SqLogDetJac, EM_MinDetJac,
     CM_End,
     EM_Last]"

text \<open>The underlying integer value of an enumerator (the implicit conversion to int).\<close>

fun EM_value :: "EnergyMeasure \<Rightarrow> nat" where
  "EM_value EM_Unknown = 0"
| "EM_value SIM_Begin = 1"
| "EM_value EM_JE = 2"
| "EM_value EM_CC = 3"
| "EM_value EM_MI = 4"
| "EM_value EM_NMI = 5"
| "EM_value EM_SSD = 6"
| "EM_value EM_CR_XY = 7"
| "EM_value EM_CR_YX = 8"
| "EM_value EM_LC = 9"
| "EM_value EM_K = 10"
| "EM_value EM_ML = 11"
| "EM_value EM_NGF_COS = 12"
| "EM_value EM_LNCC = 13"
| "EM_value SIM_End = 14"
| "EM_value PDM_Begin = 15"
| "EM_value EM_FRE = 16"
| "EM_value EM_CorrespondenceDistance = 17"
| "EM_value EM_CurrentsDistance = 18"
| "EM_value EM_VarifoldDistance = 19"
| "EM_value PDM_End = 20"
| "EM_value EFT_Begin = 21"
| "EM_value EM_BalloonForce = 22"
| "EM_value EM_ImageEdgeForce = 23"
| "EM_value EM_ImplicitSurfaceDistance = 24"
| "EM_value EM_ImplicitSurfaceSpringForce = 25"
| "EM_value EFT_End = 26"
| "EM_value IFT_Begin = 27"
| "EM_value EM_MetricDistortion = 28"
| "EM_value EM_Stretching = 29"
| "EM_value EM_Curvature = 30"
| "EM_value EM_QuadraticCurvature = 31"
| "EM_value EM_NonSelfIntersection = 32"
| "EM_value EM_RepulsiveForce = 33"
| "EM_value EM_InflationForce = 34"
| "EM_value EM_SpringForce = 35"
| "EM_value IFT_End = 36"
| "EM_value CM_Begin = 37"
| "EM_value EM_VolumePreservation = 38"
| "EM_value EM_TopologyPreservation = 39"
| "EM_value EM_Sparsity = 40"
| "EM_value EM_BendingEnergy = 41"
| "EM_value EM_L0Norm = 42"
| "EM_value EM_L1Norm = 43"
| "EM_value EM_L2Norm = 44"
| "EM_value EM_SqLogDetJac = 45"
| "EM_value EM_MinDetJac = 46"
| "EM_value CM_End = 47"
| "EM_value EM_Last = 48"

text \<open>
  \<open>static_cast<EnergyMeasure>(n)\<close>: the enumerator whose underlying value is \<open>n\<close>.
  The code applies it to \<open>EM_Last - 1\<close> and to \<open>value - 1\<close> for a \<open>value\<close> other than
  \<open>EM_Unknown\<close> only, so \<open>n\<close> is always the value of an enumerator (lemma
  \<open>static_cast_EM_value\<close> below) and the subtraction never goes below zero.
\<close>

definition static_cast_EM :: "nat \<Rightarrow> EnergyMeasure" where
  "static_cast_EM n = EM_enumerators ! n"

text \<open>
  Modelled from the spec: the generic formatter \<open>ToString(value, w, c, left)\<close> of
  mirtk/String.h, which the enumeration's \<open>ToString\<close> calls on the selected literal, is
  not among the sources. It writes the text into a field of width \<open>w\<close> filled with the
  character \<open>c\<close>, left or right aligned; a text at least as long as the field is
  returned unchanged. The defaults are \<open>w = 0\<close>, \<open>c = ' '\<close>, \<open>left = false\<close>, so a call
  \<open>ToString(value)\<close> yields the canonical code itself, as the spec requires.
\<close>

definition ToString_str :: "string \<Rightarrow> int \<Rightarrow> char \<Rightarrow> bool \<Rightarrow> string" where
  "ToString_str str w c left =
    (let fill = replicate (nat (w - int (length str))) c
     in if left then str @ fill else fill @ str)"

text \<open>The literal selected by the switch of \<open>ToString\<close>; every enumerator that has no
  case of its own (all sentinels, \<open>EM_Unknown\<close>, \<open>EM_Last\<close>) takes the default.\<close>

fun ToString_literal :: "EnergyMeasure \<Rightarrow> string" where
  "ToString_literal EM_JE = ''JE''"
| "ToString_literal EM_CC = ''CC''"
| "ToString_literal EM_MI = ''MI''"
| "ToString_literal EM_NMI = ''NMI''"
| "ToString_literal EM_SSD = ''SSD''"
| "ToString_literal EM_CR_XY = ''CR_XY''"
| "ToString_literal EM_CR_YX = ''CR_YX''"
| "ToString_literal EM_LC = ''LC''"
| "ToString_literal EM_K = ''K''"
| "ToString_literal EM_ML = ''ML''"
| "ToString_literal EM_NGF_COS = ''NGF_COS''"
| "ToString_literal EM_LNCC = ''LNCC''"
| "ToString_literal EM_FRE = ''FRE''"
| "ToString_literal EM_CorrespondenceDistance = ''PCD''"
| "ToString_literal EM_CurrentsDistance = ''CurrentsDistance''"
| "ToString_literal EM_VarifoldDistance = ''VarifoldDistance''"
| "ToString_literal EM_BalloonForce = ''BalloonForce''"
| "ToString_literal EM_ImageEdgeForce = ''ImageEdgeForce''"
| "ToString_literal EM_ImplicitSurfaceDistance = ''ImplicitSurfaceDistance''"
| "ToString_literal EM_ImplicitSurfaceSpringForce = ''ImplicitSurfaceSpringForce''"
| "ToString_literal EM_MetricDistortion = ''MetricDistortion''"
| "ToString_literal EM_Stretching = ''Stretching''"
| "ToString_literal EM_Curvature = ''Curvature''"
| "ToString_literal EM_QuadraticCurvature = ''QuadraticCurvature''"
| "ToString_literal EM_NonSelfIntersection = ''NSI''"
| "ToString_literal EM_RepulsiveForce = ''Repulsion''"
| "ToString_literal EM_InflationForce = ''Inflation''"
| "ToString_literal EM_SpringForce = ''Spring''"
| "ToString_literal EM_BendingEnergy = ''BE''"
| "ToString_literal EM_VolumePreservation = ''VP''"
| "ToString_literal EM_TopologyPreservation = ''TP''"
| "ToString_literal EM_Sparsity = ''Sparsity''"
| "ToString_literal EM_L0Norm = ''L0''"
| "ToString_literal EM_L1Norm = ''L1''"
| "ToString_literal EM_L2Norm = ''L2''"
| "ToString_literal EM_SqLogDetJac = ''SqLogDetJac''"
| "ToString_literal EM_MinDetJac = ''MinDetJac''"
| "ToString_literal _ = ''Unknown''"

text \<open>\<open>ToString(const EnergyMeasure &value, int w, char c, bool left)\<close>.\<close>

definition ToString_EM :: "EnergyMeasure \<Rightarrow> int \<Rightarrow> char \<Rightarrow> bool \<Rightarrow> string" where
  "ToString_EM val w c left = ToString_str (ToString_literal val) w c left"

text \<open>The call \<open>ToString(value)\<close>, with the default field width, fill and alignment.\<close>

definition ToString :: "EnergyMeasure \<Rightarrow> string" where
  "ToString val = ToString_EM val 0 (CHR '' '') False"

text \<open>
  The five blocks of alternative names of \<open>FromString\<close>. Each block runs only while
  \<open>value\<close> is still \<open>EM_Unknown\<close> and leaves it unchanged when no name of the block
  equals the text (\<open>strcmp(str, ...) == 0\<close> is equality of the texts).
\<close>

definition alt_similarity :: "string \<Rightarrow> EnergyMeasure \<Rightarrow> EnergyMeasure" where
  "alt_similarity str val =
    (if str = ''NCC'' then EM_LNCC
     else if str = ''LCC'' then EM_LNCC
     else val)"

definition alt_point_set_distance :: "string \<Rightarrow> EnergyMeasure \<Rightarrow> EnergyMeasure" where
  "alt_point_set_distance str val =
    (if str = ''Fiducial Registration Error'' \<or>
        str = ''Fiducial registration error'' \<or>
        str = ''Fiducial Error'' \<or>
        str = ''Fiducial error'' \<or>
        str = ''Landmark Registration Error'' \<or>
        str = ''Landmark registration error'' \<or>
        str = ''Landmark Error'' \<or>
        str = ''Landmark error'' then EM_FRE
     else if str = ''Point Correspondence Distance'' \<or>
             str = ''Point correspondence distance'' \<or>
             str = ''Correspondence Distance'' \<or>
             str = ''Correspondence distance'' then EM_CorrespondenceDistance
     else if str = ''Currents distance'' \<or>
             str = ''Currents Distance'' then EM_CurrentsDistance
     else if str = ''Varifold distance'' \<or>
             str = ''Varifold Distance'' then EM_VarifoldDistance
     else val)"

definition alt_external_force :: "string \<Rightarrow> EnergyMeasure \<Rightarrow> EnergyMeasure" where
  "alt_external_force str val =
    (if str = ''EdgeForce'' then EM_ImageEdgeForce else val)"

definition alt_internal_force :: "string \<Rightarrow> EnergyMeasure \<Rightarrow> EnergyMeasure" where
  "alt_internal_force str val =
    (if str = ''EdgeLength'' then EM_Stretching
     else if str = ''MetricDistortion'' then EM_MetricDistortion
     else if str = ''Bending'' then EM_Curvature
     else if str = ''SurfaceBending'' then EM_Curvature
     else if str = ''SurfaceCurvature'' then EM_Curvature
     else if str = ''RepulsiveForce'' then EM_RepulsiveForce
     else if str = ''NonSelfIntersection'' then EM_NonSelfIntersection
     else if str = ''InflationForce'' then EM_InflationForce
     else if str = ''SurfaceInflation'' then EM_InflationForce
     else val)"

definition alt_constraint :: "string \<Rightarrow> EnergyMeasure \<Rightarrow> EnergyMeasure" where
  "alt_constraint str val =
    (if str = ''JAC'' then EM_SqLogDetJac
     else if str = ''MinJac'' then EM_MinDetJac
     else val)"

text \<open>The value after all five blocks of alternative names, starting from
  \<open>value = EM_Unknown\<close>.\<close>

definition alternative_names :: "string \<Rightarrow> EnergyMeasure" where
  "alternative_names str =
    (let v0 = EM_Unknown;
         v1 = (if v0 = EM_Unknown then alt_similarity str v0 else v0);
         v2 = (if v1 = EM_Unknown then alt_point_set_distance str v1 else v1);
         v3 = (if v2 = EM_Unknown then alt_external_force str v2 else v2);
         v4 = (if v3 = EM_Unknown then alt_internal_force str v3 else v3);
         v5 = (if v4 = EM_Unknown then alt_constraint str v4 else v4)
     in v5)"

text \<open>
  The loop over the default names:
  \<^verbatim>\<open>while (value != EM_Unknown) {
    if (ToString(value) == str) break;
    value = static_cast<EnergyMeasure>(value - 1);
  }\<close>
  It returns the final \<open>value\<close>. The underlying value decreases by one in each turn.
\<close>

function default_names_loop :: "string \<Rightarrow> EnergyMeasure \<Rightarrow> EnergyMeasure" where
  "default_names_loop str val =
    (if val \<noteq> EM_Unknown then
       (if ToString val = str then val
        else default_names_loop str (static_cast_EM (EM_value val - 1)))
     else val)"
  by pat_completeness auto
termination
proof (relation "measure (\<lambda>(str, val). EM_value val)")
  show "wf (measure (\<lambda>(str, val). EM_value val))"
    by simp
next
  fix str :: string and val :: EnergyMeasure
  assume "val \<noteq> EM_Unknown"
  then have "EM_value (static_cast_EM (EM_value val - 1)) < EM_value val"
    by (cases val) (simp_all add: static_cast_EM_def EM_enumerators_def)
  then show "((str, static_cast_EM (EM_value val - 1)), (str, val))
      \<in> measure (\<lambda>(str, val). EM_value val)"
    by simp
qed

declare default_names_loop.simps [simp del]

text \<open>\<open>FromString(const char *str, EnergyMeasure &value)\<close>: the pair of the final
  \<open>value\<close> and the returned flag.\<close>

definition FromString :: "string \<Rightarrow> EnergyMeasure \<times> bool" where
  "FromString str =
    (let val = alternative_names str;
         val = (if val = EM_Unknown
                then default_names_loop str (static_cast_EM (EM_value EM_Last - 1))
                else val)
     in (val, val \<noteq> EM_Unknown))"

text \<open>
  A selectable value: an enumerator strictly between the begin and the end sentinel of
  one of the five categories.
\<close>

definition between :: "EnergyMeasure \<Rightarrow> EnergyMeasure \<Rightarrow> EnergyMeasure \<Rightarrow> bool" where
  "between lo hi e = (EM_value lo < EM_value e \<and> EM_value e < EM_value hi)"

definition selectable :: "EnergyMeasure \<Rightarrow> bool" where
  "selectable e =
    (between SIM_Begin SIM_End e \<or> between PDM_Begin PDM_End e \<or>
     between EFT_Begin EFT_End e \<or> between IFT_Begin IFT_End e \<or>
     between CM_Begin CM_End e)"

section \<open>Parameter lists and the object interface (mirtk/Object.h)\<close>

text \<open>
  \<open>ParameterList\<close> is an array of name/value pairs. An iterator into a list is modelled
  by its offset from \<open>begin()\<close>, so \<open>end()\<close> is the length of the list. A
  \<open>const char *\<close> argument is represented by the text it points to.
\<close>

type_synonym ParameterList = "(string \<times> string) list"

text \<open>
  \<open>Find\<close> (both overloads run the same loop):
  \<^verbatim>\<open>it = params.begin();
  while (it != params.end() && it->first != name) ++it;\<close>
\<close>

fun Find :: "ParameterList \<Rightarrow> string \<Rightarrow> nat" where
  "Find [] name = 0"
| "Find (p # params) name = (if fst p \<noteq> name then Suc (Find params name) else 0)"

definition Contains :: "ParameterList \<Rightarrow> string \<Rightarrow> bool" where
  "Contains params name = (Find params name \<noteq> length params)"

definition Get :: "ParameterList \<Rightarrow> string \<Rightarrow> string" where
  "Get params name =
    (let pos = Find params name
     in if pos = length params then [] else snd (params ! pos))"

text \<open>
  The generic \<open>Insert<T>\<close>. The formatter \<open>ToString\<close> of the value type \<open>T\<close> (called with
  its default field width) is the first argument of the model.
\<close>

definition Insert :: "('t \<Rightarrow> string) \<Rightarrow> ParameterList \<Rightarrow> string \<Rightarrow> 't \<Rightarrow> ParameterList" where
  "Insert ToString_T params name val =
    (let pos = Find params name
     in if pos = length params then params @ [(name, ToString_T val)]
        else params[pos := (fst (params ! pos), ToString_T val)])"

text \<open>The specialisation of \<open>Insert\<close> for \<open>const char *\<close> values.\<close>

definition Insert_cstr :: "ParameterList \<Rightarrow> string \<Rightarrow> string \<Rightarrow> ParameterList" where
  "Insert_cstr params name val =
    (let pos = Find params name
     in if pos = length params then params @ [(name, val)]
        else params[pos := (fst (params ! pos), val)])"

text \<open>The specialisation of \<open>Insert\<close> for \<open>string\<close> values.\<close>

definition Insert_string :: "ParameterList \<Rightarrow> string \<Rightarrow> string \<Rightarrow> ParameterList" where
  "Insert_string params name val =
    (let pos = Find params name
     in if pos = length params then params @ [(name, val)]
        else params[pos := (fst (params ! pos), val)])"

text \<open>\<open>::tolower\<close> of the C library, in the "C" locale: the upper-case letters \<open>A\<close> to
  \<open>Z\<close> go to \<open>a\<close> to \<open>z\<close>, every other character is returned unchanged.\<close>

definition tolower :: "char \<Rightarrow> char" where
  "tolower c =
    (let n = (of_char c :: nat)
     in if 65 \<le> n \<and> n \<le> 90 then char_of (n + 32) else c)"

text \<open>
  \<open>name[0] = ::tolower(name[0])\<close>: a read and a write at position 0 of the character
  array of \<open>name\<close>, which holds the characters of the string followed by the
  terminating null character. The access is unchecked and has no error return: in an
  empty string position 0 is the terminator. \<open>lower_first_buffer\<close> is the array after
  the write.
\<close>

definition lower_first_buffer :: "string \<Rightarrow> string" where
  "lower_first_buffer name =
    (let buffer = name @ [CHR 0x00] in buffer[0 := tolower (buffer ! 0)])"

text \<open>The string \<open>name\<close> after the write: the write does not change its length, so
  its characters are the first \<open>length name\<close> characters of the array.\<close>

definition lower_first :: "string \<Rightarrow> string" where
  "lower_first name = take (length name) (lower_first_buffer name)"

text \<open>
  The loop of the merging \<open>Insert\<close> taken when \<open>prefix\<close> is not null. The model takes
  both lists by value, so it embeds the calls in which \<open>other\<close> is another vector than
  \<open>params\<close>: the entries the loop visits are those \<open>other\<close> had at the call.
\<close>

fun Insert_prefixed :: "ParameterList \<Rightarrow> ParameterList \<Rightarrow> string \<Rightarrow> ParameterList" where
  "Insert_prefixed params [] prefix = params"
| "Insert_prefixed params (it # other) prefix =
    Insert_prefixed
      (Insert_string params (prefix @ '' '' @ lower_first (fst it)) (snd it)) other prefix"

text \<open>The loop taken when \<open>prefix\<close> is null, again for two different vectors.\<close>

fun Insert_verbatim :: "ParameterList \<Rightarrow> ParameterList \<Rightarrow> ParameterList" where
  "Insert_verbatim params [] = params"
| "Insert_verbatim params (it # other) =
    Insert_verbatim (Insert_string params (fst it) (snd it)) other"

text \<open>\<open>Insert(params, other, prefix)\<close> for two different vectors; \<open>None\<close> is the null
  prefix.\<close>

definition Insert_list :: "ParameterList \<Rightarrow> ParameterList \<Rightarrow> string option \<Rightarrow> ParameterList" where
  "Insert_list params other prefix =
    (case prefix of
       Some p \<Rightarrow> Insert_prefixed params other p
     | None \<Rightarrow> Insert_verbatim params other)"

text \<open>
  Both parameters of the merging \<open>Insert\<close> are references, so a caller can pass one
  vector in both places. Then the loop reads the entry at the iterator \<open>it\<close> from the
  vector that the inner \<open>Insert\<close> changes, and \<open>other.end()\<close>, evaluated in every turn,
  is the current end of that vector. An inner \<open>Insert\<close> that overwrites a value leaves
  \<open>it\<close> alone. One that appends calls \<open>push_back\<close>: while the vector has spare capacity
  the entry is added in place and \<open>it\<close> stays valid; when the vector is full it is
  reallocated, \<open>it\<close> is left pointing to released storage, and the \<open>++it\<close> that follows
  has no defined result. The model stops there with \<open>IteratorInvalidated\<close>.
  \<open>Insert_self capacity key params i\<close> is the rest of the loop with the iterator at
  offset \<open>i\<close>; \<open>key\<close> maps the name of an entry to the name it is merged under.
\<close>

datatype error = IteratorInvalidated

function Insert_self :: "nat \<Rightarrow> (string \<Rightarrow> string) \<Rightarrow> ParameterList \<Rightarrow> nat \<Rightarrow> error + ParameterList" where
  "Insert_self capacity key params i =
    (if i < length params then
       (let name = key (fst (params ! i));
            val = snd (params ! i)
        in if Find params name = length params \<and> capacity \<le> length params
           then Inl IteratorInvalidated
           else Insert_self capacity key (Insert_string params name val) (Suc i))
     else Inr params)"
  by pat_completeness auto
termination
proof (relation "measure (\<lambda>(capacity, key, params, i).
    (capacity - length params) + (length params - i))")
  show "wf (measure (\<lambda>(capacity, key, params, i).
      (capacity - length params) + (length params - i)))"
    by simp
next
  fix capacity :: nat and key :: "string \<Rightarrow> string" and params :: ParameterList
    and i :: nat and name val :: string
  assume i: "i < length params"
    and go: "\<not> (Find params name = length params \<and> capacity \<le> length params)"
  have "(capacity - length (Insert_string params name val)) +
      (length (Insert_string params name val) - Suc i) <
      (capacity - length params) + (length params - i)"
  proof (cases "Find params name = length params")
    case True
    with go have "length params < capacity" by simp
    with True i show ?thesis
      by (simp add: Insert_string_def Let_def)
  next
    case False
    with i show ?thesis
      by (simp add: Insert_string_def Let_def)
  qed
  then show "((capacity, key, Insert_string params name val, Suc i), (capacity, key, params, i))
      \<in> measure (\<lambda>(capacity, key, params, i).
        (capacity - length params) + (length params - i))"
    by simp
qed

declare Insert_self.simps [simp del]

text \<open>
  The source of a merge: another vector, given by its entries, or the target vector
  itself.
\<close>

datatype source = Other ParameterList | Same

text \<open>
  \<open>Insert(params, other, prefix)\<close> as a call: \<open>capacity\<close> is the capacity of the vector
  \<open>params\<close> (at least its length), which matters only when \<open>other\<close> is \<open>params\<close> itself.
\<close>

definition Insert_list_call :: "nat \<Rightarrow> ParameterList \<Rightarrow> source \<Rightarrow> string option \<Rightarrow> error + ParameterList" where
  "Insert_list_call capacity params other prefix =
    (case other of
       Other entries \<Rightarrow> Inr (Insert_list params entries prefix)
     | Same \<Rightarrow>
         (case prefix of
            Some p \<Rightarrow> Insert_self capacity (\<lambda>name. p @ '' '' @ lower_first name) params 0
          | None \<Rightarrow> Insert_self capacity (\<lambda>name. name) params 0))"

text \<open>\<open>Remove\<close>: \<open>params.erase(pos)\<close> closes the gap left by the erased entry.\<close>

definition Remove :: "ParameterList \<Rightarrow> string \<Rightarrow> ParameterList" where
  "Remove params name =
    (let pos = Find params name
     in if pos \<noteq> length params then take pos params @ drop (Suc pos) params
        else params)"

text \<open>
  The class \<open>Object\<close>. The virtual member \<open>Set\<close> of an object with state \<open>'obj\<close> takes the
  object, a name and a value and returns its flag together with the object after the
  call. The root class has no state of its own and its \<open>Set\<close> does nothing.
\<close>

type_synonym 'obj Set_method = "'obj \<Rightarrow> string \<Rightarrow> string \<Rightarrow> bool \<times> 'obj"

definition Object_Set :: "'obj Set_method" where
  "Object_Set this name val = (False, this)"

definition Object_Parameter :: "'obj \<Rightarrow> ParameterList" where
  "Object_Parameter this = []"

text \<open>
  \<open>Parameter(const ParameterList &param)\<close>: one call of the object's \<open>Set\<close> for each
  entry, from \<open>begin()\<close> to \<open>end()\<close>; the flag each call returns is dropped, and the
  member returns nothing besides the object it has changed.
\<close>

fun Parameter :: "'obj Set_method \<Rightarrow> 'obj \<Rightarrow> ParameterList \<Rightarrow> 'obj" where
  "Parameter Set_m this [] = this"
| "Parameter Set_m this (it # param) =
    Parameter Set_m (snd (Set_m this (fst it) (snd it))) param"

text \<open>
  An observer for the calls of \<open>Set\<close>: the object is paired with a log, and each call
  runs the given \<open>Set\<close> on the object and appends its two arguments to the log.
\<close>

definition logged :: "'obj Set_method \<Rightarrow> ('obj \<times> (string \<times> string) list) Set_method" where
  "logged Set_m this name val =
    (fst (Set_m (fst this) name val),
     (snd (Set_m (fst this) name val), snd this @ [(name, val)]))"

text \<open>
  The spec's wording of the merge under a prefix, for comparison with the code: the
  key of a merged entry is the prefix, a space, and the name with its first letter in
  lower case; the renamed entries are then merged by the update-or-append rule.
\<close>

definition qualified_name :: "string \<Rightarrow> string \<Rightarrow> string" where
  "qualified_name prefix name =
    prefix @ '' '' @ (case name of [] \<Rightarrow> [] | c # cs \<Rightarrow> tolower c # cs)"

definition qualified_list :: "string \<Rightarrow> ParameterList \<Rightarrow> ParameterList" where
  "qualified_list prefix other = map (\<lambda>it. (qualified_name prefix (fst it), snd it)) other"

section \<open>Properties of the energy measure names\<close>

lemma ToString_str_default: "ToString_str str 0 c left = str"
  by (simp add: ToString_str_def)

lemma ToString_is_literal: "ToString val = ToString_literal val"
  by (simp add: ToString_def ToString_EM_def ToString_str_default)

text \<open>Every cast of the code is applied to the value of an enumerator, where it is
  the inverse of the conversion to the underlying value.\<close>

lemma static_cast_EM_value: "static_cast_EM (EM_value e) = e"
  by (cases e) (simp_all add: static_cast_EM_def EM_enumerators_def)

lemma EM_value_less_Last: "e \<noteq> EM_Last \<Longrightarrow> EM_value e < EM_value EM_Last"
  by (cases e) simp_all

lemma static_cast_Last_minus_1: "static_cast_EM (EM_value EM_Last - 1) = CM_End"
  by (simp add: static_cast_EM_def EM_enumerators_def)

lemmas FromString_unfold =
  FromString_def alternative_names_def alt_similarity_def alt_point_set_distance_def
  alt_external_force_def alt_internal_force_def alt_constraint_def
  static_cast_EM_def EM_enumerators_def default_names_loop.simps ToString_is_literal

text \<open>The selectable values are the 37 enumerators that have a case of their own in
  the switch of \<open>ToString\<close>.\<close>

lemma selectable_iff:
  "selectable e \<longleftrightarrow> e \<in> set
    [EM_JE, EM_CC, EM_MI, EM_NMI, EM_SSD, EM_CR_XY, EM_CR_YX, EM_LC, EM_K, EM_ML,
     EM_NGF_COS, EM_LNCC,
     EM_FRE, EM_CorrespondenceDistance, EM_CurrentsDistance, EM_VarifoldDistance,
     EM_BalloonForce, EM_ImageEdgeForce, EM_ImplicitSurfaceDistance,
     EM_ImplicitSurfaceSpringForce,
     EM_MetricDistortion, EM_Stretching, EM_Curvature, EM_QuadraticCurvature,
     EM_NonSelfIntersection, EM_RepulsiveForce, EM_InflationForce, EM_SpringForce,
     EM_VolumePreservation, EM_TopologyPreservation, EM_Sparsity, EM_BendingEnergy,
     EM_L0Norm, EM_L1Norm, EM_L2Norm, EM_SqLogDetJac, EM_MinDetJac]"
  by (cases e) (simp_all add: selectable_def between_def)

lemma not_selectable_Unknown: "\<not> selectable e \<Longrightarrow> ToString e = ''Unknown''"
  by (cases e) (simp_all add: selectable_def between_def ToString_is_literal)

lemma FromString_canonical: "selectable e \<Longrightarrow> FromString (ToString e) = (e, True)"
  by (cases e) (simp_all add: selectable_def between_def, simp_all add: FromString_unfold)

lemma FromString_Unknown: "FromString ''Unknown'' = (CM_End, True)"
  by (simp add: FromString_unfold)

text \<open>The loop stops either at \<open>EM_Unknown\<close> or at a value whose default name is the
  text.\<close>

lemma default_names_loop_result:
  "default_names_loop str val = EM_Unknown \<or> ToString (default_names_loop str val) = str"
proof (induction str val rule: default_names_loop.induct)
  case (1 str val)
  show ?case
  proof (cases "val \<noteq> EM_Unknown \<and> ToString val \<noteq> str")
    case True
    then have "default_names_loop str val =
        default_names_loop str (static_cast_EM (EM_value val - 1))"
      by (subst default_names_loop.simps) simp
    with True "1.IH" show ?thesis by simp
  next
    case False
    then have "default_names_loop str val = val"
      by (subst default_names_loop.simps) auto
    with False show ?thesis by auto
  qed
qed

lemma alternative_names_selectable:
  "alternative_names str = EM_Unknown \<or> selectable (alternative_names str)"
  by (simp add: alternative_names_def alt_similarity_def alt_point_set_distance_def
      alt_external_force_def alt_internal_force_def alt_constraint_def
      selectable_def between_def)

text \<open>
  What a successful \<open>FromString\<close> can return: a selectable value, or the sentinel
  \<open>CM_End\<close> for the one text \<open>Unknown\<close>.
\<close>

lemma FromString_success_cases:
  assumes "FromString str = (v, True)"
  shows "selectable v \<or> (str = ''Unknown'' \<and> v = CM_End)"
proof (cases "alternative_names str = EM_Unknown")
  case False
  with assms have "v = alternative_names str"
    by (simp add: FromString_def Let_def)
  with False alternative_names_selectable [of str] show ?thesis by simp
next
  case True
  let ?r = "default_names_loop str (static_cast_EM (EM_value EM_Last - 1))"
  from True assms have "v = ?r \<and> ?r \<noteq> EM_Unknown"
    by (auto simp: FromString_def Let_def)
  with default_names_loop_result [of str "static_cast_EM (EM_value EM_Last - 1)"]
  have name: "ToString v = str" by auto
  show ?thesis
  proof (cases "selectable v")
    case True
    then show ?thesis by simp
  next
    case False
    then have "str = ''Unknown''"
      using name not_selectable_Unknown by blast
    with assms FromString_Unknown show ?thesis by simp
  qed
qed

text \<open>
  Claim C1. For every selectable energy measure \<open>e\<close> (an enumerator strictly between
  the begin and end sentinel of a category), \<open>FromString(ToString(e))\<close> returns the
  pair \<open>(e, true)\<close>, and no two selectable values have the same canonical name.
\<close>

theorem C1_canonical_names_round_trip:
  "(\<forall>e. selectable e \<longrightarrow> FromString (ToString e) = (e, True)) \<and>
   (\<forall>a b. selectable a \<and> selectable b \<and> ToString a = ToString b \<longrightarrow> a = b)"
proof (intro conjI allI impI)
  fix e assume "selectable e"
  then show "FromString (ToString e) = (e, True)"
    by (rule FromString_canonical)
next
  fix a b assume h: "selectable a \<and> selectable b \<and> ToString a = ToString b"
  then have sa: "selectable a" and sb: "selectable b" and eq: "ToString a = ToString b"
    by simp_all
  from sa have a: "FromString (ToString a) = (a, True)"
    by (rule FromString_canonical)
  from sb have b: "FromString (ToString b) = (b, True)"
    by (rule FromString_canonical)
  from a have "FromString (ToString b) = (a, True)"
    unfolding eq .
  with b have "(b, True) = (a, True)"
    by (simp only:)
  then show "a = b" by simp
qed

theorem C1_canonical_names_round_trip_witness:
  "selectable EM_MinDetJac \<and> selectable EM_JE \<and>
   ToString EM_MinDetJac = ''MinDetJac'' \<and> ToString EM_JE = ''JE'' \<and>
   FromString ''MinDetJac'' = (EM_MinDetJac, True) \<and> FromString ''JE'' = (EM_JE, True) \<and>
   ToString EM_MinDetJac \<noteq> ToString EM_JE"
proof -
  have s: "selectable EM_MinDetJac" "selectable EM_JE"
    by (simp_all add: selectable_def between_def)
  have n: "ToString EM_MinDetJac = ''MinDetJac''" "ToString EM_JE = ''JE''"
    by (simp_all add: ToString_is_literal)
  from C1_canonical_names_round_trip s
  have "FromString (ToString EM_MinDetJac) = (EM_MinDetJac, True)"
    and "FromString (ToString EM_JE) = (EM_JE, True)"
    by blast+
  with s n show ?thesis by simp
qed

text \<open>
  Claim C2. When no alternative name matches, the loop over the default names starts
  from the highest selectable enumerator and counts down, so that a successful
  \<open>FromString\<close> never returns a category sentinel. The code starts the loop at
  \<open>EM_Last - 1\<close>, which is the sentinel \<open>CM_End\<close>, and the default name of a sentinel is
  \<open>Unknown\<close>: for the text \<open>Unknown\<close> the loop stops at once and \<open>FromString\<close> returns
  the sentinel \<open>CM_End\<close> with the flag true.
\<close>

theorem C2_FromString_Unknown_returns_sentinel:
  "static_cast_EM (EM_value EM_Last - 1) = CM_End \<and>
   alternative_names ''Unknown'' = EM_Unknown \<and>
   ToString CM_End = ''Unknown'' \<and>
   FromString ''Unknown'' = (CM_End, True) \<and>
   \<not> selectable CM_End"
  by (simp add: FromString_unfold selectable_def between_def)

text \<open>
  Claim C6. The alternative names are compared as exact texts and before the default
  names: whenever a block of alternative names yields a value, \<open>FromString\<close> returns
  that value with the flag true. \<open>NCC\<close> and \<open>LCC\<close> both give the value that the
  canonical name of \<open>EM_LNCC\<close> gives, \<open>Landmark error\<close> and
  \<open>Fiducial Registration Error\<close> both give \<open>EM_FRE\<close>, and a text that differs from an
  alternative name in the case of a letter is not that name.
\<close>

theorem C6_alternative_names_first:
  "(\<forall>str. alternative_names str \<noteq> EM_Unknown \<longrightarrow>
      FromString str = (alternative_names str, True)) \<and>
   FromString ''NCC'' = (EM_LNCC, True) \<and>
   FromString ''LCC'' = (EM_LNCC, True) \<and>
   FromString ''NCC'' = FromString (ToString EM_LNCC) \<and>
   FromString ''LCC'' = FromString (ToString EM_LNCC) \<and>
   FromString ''Landmark error'' = (EM_FRE, True) \<and>
   FromString ''Fiducial Registration Error'' = (EM_FRE, True) \<and>
   FromString ''Landmark error'' = FromString (ToString EM_FRE) \<and>
   FromString ''ncc'' = (EM_Unknown, False) \<and>
   FromString ''landmark error'' = (EM_Unknown, False)"
proof -
  have first: "\<forall>str. alternative_names str \<noteq> EM_Unknown \<longrightarrow>
      FromString str = (alternative_names str, True)"
    by (simp add: FromString_def Let_def)
  have ncc: "FromString ''NCC'' = (EM_LNCC, True)"
    by (simp add: FromString_unfold)
  have lcc: "FromString ''LCC'' = (EM_LNCC, True)"
    by (simp add: FromString_unfold)
  have lncc: "FromString (ToString EM_LNCC) = (EM_LNCC, True)"
    by (simp add: FromString_unfold)
  have lm: "FromString ''Landmark error'' = (EM_FRE, True)"
    by (simp add: FromString_unfold)
  have fre: "FromString ''Fiducial Registration Error'' = (EM_FRE, True)"
    by (simp add: FromString_unfold)
  have fre': "FromString (ToString EM_FRE) = (EM_FRE, True)"
    by (simp add: FromString_unfold)
  have lower: "FromString ''ncc'' = (EM_Unknown, False)"
    by (simp add: FromString_unfold)
  have lower': "FromString ''landmark error'' = (EM_Unknown, False)"
    by (simp add: FromString_unfold)
  from first ncc lcc lncc lm fre fre' lower lower' show ?thesis
    by simp
qed

theorem C6_alternative_names_first_witness:
  "alternative_names ''EdgeForce'' = EM_ImageEdgeForce \<and>
   EM_ImageEdgeForce \<noteq> EM_Unknown \<and>
   FromString ''EdgeForce'' = (EM_ImageEdgeForce, True)"
proof -
  have a: "alternative_names ''EdgeForce'' = EM_ImageEdgeForce"
    by (simp add: alternative_names_def alt_similarity_def alt_point_set_distance_def
        alt_external_force_def)
  from C6_alternative_names_first
  have "alternative_names ''EdgeForce'' \<noteq> EM_Unknown \<longrightarrow>
      FromString ''EdgeForce'' = (alternative_names ''EdgeForce'', True)"
    by blast
  with a show ?thesis by simp
qed

section \<open>Properties of the parameter list functions\<close>

subsection \<open>What \<open>Find\<close> returns\<close>

lemma Find_le_length: "Find params name \<le> length params"
  by (induction params) auto

lemma Find_name: "Find params name < length params \<Longrightarrow> fst (params ! Find params name) = name"
  by (induction params) (auto split: if_splits)

lemma Find_least: "k < Find params name \<Longrightarrow> fst (params ! k) \<noteq> name"
proof (induction params arbitrary: k)
  case Nil
  then show ?case by simp
next
  case (Cons p params)
  then show ?case
    by (cases k) (auto split: if_splits)
qed

lemma Find_first_occurrence:
  assumes "i < length params" and "fst (params ! i) = name"
    and "\<forall>k<i. fst (params ! k) \<noteq> name"
  shows "Find params name = i"
  using assms
proof (induction params arbitrary: i)
  case Nil
  then show ?case by simp
next
  case (Cons p params)
  show ?case
  proof (cases i)
    case 0
    with Cons.prems show ?thesis by simp
  next
    case (Suc i')
    from Cons.prems(3) Suc have head: "fst p \<noteq> name"
      by auto
    have "\<forall>k<i'. fst (params ! k) \<noteq> name"
    proof (intro allI impI)
      fix k assume "k < i'"
      then have "Suc k < i" using Suc by simp
      with Cons.prems(3) have "fst ((p # params) ! Suc k) \<noteq> name" by blast
      then show "fst (params ! k) \<noteq> name" by simp
    qed
    with Cons.IH [of i'] Cons.prems(1,2) Suc have "Find params name = i'"
      by simp
    with head Suc show ?thesis by simp
  qed
qed

lemma Find_absent_iff: "Find params name = length params \<longleftrightarrow> name \<notin> fst ` set params"
  by (induction params) auto

lemma Contains_iff: "Contains params name \<longleftrightarrow> name \<in> fst ` set params"
  by (simp add: Contains_def Find_absent_iff)

lemma Contains_Find_less: "Contains params name \<longleftrightarrow> Find params name < length params"
  using Find_le_length [of params name] by (auto simp: Contains_def)

lemma Find_append:
  "Find (xs @ ys) name =
    (if Find xs name = length xs then length xs + Find ys name else Find xs name)"
  by (induction xs) auto

subsection \<open>The three \<open>Insert\<close> overloads\<close>

lemma Insert_is_Insert_string: "Insert ToString_T params name val = Insert_string params name (ToString_T val)"
  by (simp add: Insert_def Insert_string_def)

lemma Insert_string_absent:
  "\<not> Contains params name \<Longrightarrow> Insert_string params name val = params @ [(name, val)]"
  by (simp add: Insert_string_def Contains_def)

lemma Insert_string_present:
  assumes "Contains params name"
  shows "Insert_string params name val = params[Find params name := (name, val)]"
proof -
  from assms have less: "Find params name < length params"
    by (simp add: Contains_Find_less)
  then have "fst (params ! Find params name) = name"
    by (rule Find_name)
  with less show ?thesis
    by (simp add: Insert_string_def Let_def)
qed

lemma length_Insert_string_present:
  "Contains params name \<Longrightarrow> length (Insert_string params name val) = length params"
  by (simp add: Insert_string_present)

lemma Find_Insert_string:
  "Find (Insert_string params name val) name = Find params name"
proof (cases "Contains params name")
  case True
  then have less: "Find params name < length params"
    by (simp add: Contains_Find_less)
  have "Find (params[Find params name := (name, val)]) name = Find params name"
  proof (rule Find_first_occurrence)
    show "Find params name < length (params[Find params name := (name, val)])"
      using less by simp
    show "fst (params[Find params name := (name, val)] ! Find params name) = name"
      using less by simp
    show "\<forall>k<Find params name. fst (params[Find params name := (name, val)] ! k) \<noteq> name"
      using Find_least [of _ params name] by simp
  qed
  with True show ?thesis
    by (simp add: Insert_string_present)
next
  case False
  then show ?thesis
    by (simp add: Insert_string_absent Find_append Contains_def)
qed

lemma Contains_Insert_string: "Contains (Insert_string params name val) name"
proof (cases "Contains params name")
  case True
  then show ?thesis
    by (simp add: Contains_Find_less Find_Insert_string length_Insert_string_present)
next
  case False
  then have "Find params name = length params"
    by (simp add: Contains_def)
  moreover from False have "length (Insert_string params name val) = Suc (length params)"
    by (simp add: Insert_string_absent)
  ultimately show ?thesis
    by (simp add: Contains_def Find_Insert_string)
qed

lemma Get_Insert_string: "Get (Insert_string params name val) name = val"
proof (cases "Contains params name")
  case True
  then have less: "Find params name < length params"
    by (simp add: Contains_Find_less)
  from True have upd: "Insert_string params name val = params[Find params name := (name, val)]"
    by (rule Insert_string_present)
  have "Get (Insert_string params name val) name =
      snd (Insert_string params name val ! Find params name)"
    using less True
    by (simp add: Get_def Let_def Find_Insert_string length_Insert_string_present)
  also have "\<dots> = val"
    using less by (simp add: upd)
  finally show ?thesis .
next
  case False
  then have pos: "Find params name = length params"
    by (simp add: Contains_def)
  from False have app: "Insert_string params name val = params @ [(name, val)]"
    by (rule Insert_string_absent)
  have "Get (Insert_string params name val) name =
      snd (Insert_string params name val ! length params)"
    using pos by (simp add: Get_def Let_def Find_Insert_string) (simp add: app)
  also have "\<dots> = val"
    by (simp add: app)
  finally show ?thesis .
qed

text \<open>
  Claim C4. If the name \<open>n\<close> is absent from \<open>L\<close>, \<open>Insert(L, n, v)\<close> appends the entry at
  the end, after which \<open>Contains\<close> holds and \<open>Get\<close> returns the formatted value. If \<open>n\<close>
  is present, the value of the first entry with that name is overwritten in place:
  the list keeps its length, the entry keeps its position (\<open>Find\<close> returns the same
  offset), and every other entry is as before.
\<close>

theorem C4_Insert_appends_or_overwrites:
  "(\<not> Contains L n \<longrightarrow>
      Insert fmt L n v = L @ [(n, fmt v)] \<and>
      Contains (Insert fmt L n v) n \<and>
      Get (Insert fmt L n v) n = fmt v) \<and>
   (Contains L n \<longrightarrow>
      Find L n < length L \<and>
      fst (L ! Find L n) = n \<and>
      (\<forall>k<Find L n. fst (L ! k) \<noteq> n) \<and>
      Insert fmt L n v = L[Find L n := (n, fmt v)] \<and>
      length (Insert fmt L n v) = length L \<and>
      Find (Insert fmt L n v) n = Find L n \<and>
      Contains (Insert fmt L n v) n \<and>
      Get (Insert fmt L n v) n = fmt v)"
proof (intro conjI impI)
  assume absent: "\<not> Contains L n"
  then show "Insert fmt L n v = L @ [(n, fmt v)]"
    by (simp add: Insert_is_Insert_string Insert_string_absent)
next
  assume present: "Contains L n"
  then show "Find L n < length L"
    by (simp add: Contains_Find_less)
  then show "fst (L ! Find L n) = n"
    by (rule Find_name)
  show "\<forall>k<Find L n. fst (L ! k) \<noteq> n"
    by (simp add: Find_least)
  from present show "Insert fmt L n v = L[Find L n := (n, fmt v)]"
    by (simp add: Insert_is_Insert_string Insert_string_present)
  from present show "length (Insert fmt L n v) = length L"
    by (simp add: Insert_is_Insert_string length_Insert_string_present)
  show "Find (Insert fmt L n v) n = Find L n"
    by (simp add: Insert_is_Insert_string Find_Insert_string)
qed (simp_all add: Insert_is_Insert_string Contains_Insert_string Get_Insert_string)

theorem C4_Insert_appends_or_overwrites_witness:
  "\<not> Contains [(''Radius'', ''3''), (''Energy'', ''CC'')] ''Step'' \<and>
   Insert ToString [(''Radius'', ''3''), (''Energy'', ''CC'')] ''Step'' EM_SSD =
     [(''Radius'', ''3''), (''Energy'', ''CC''), (''Step'', ''SSD'')] \<and>
   Contains [(''Energy'', ''CC''), (''Radius'', ''3''), (''Energy'', ''MI'')] ''Energy'' \<and>
   Find [(''Energy'', ''CC''), (''Radius'', ''3''), (''Energy'', ''MI'')] ''Energy'' = 0 \<and>
   Insert ToString [(''Energy'', ''CC''), (''Radius'', ''3''), (''Energy'', ''MI'')] ''Energy'' EM_SSD =
     [(''Energy'', ''SSD''), (''Radius'', ''3''), (''Energy'', ''MI'')] \<and>
   Get (Insert ToString [(''Energy'', ''CC''), (''Radius'', ''3''), (''Energy'', ''MI'')] ''Energy'' EM_SSD)
     ''Energy'' = ''SSD''"
proof -
  have absent: "\<not> Contains [(''Radius'', ''3''), (''Energy'', ''CC'')] ''Step''"
    by (simp add: Contains_def)
  have present:
    "Contains [(''Energy'', ''CC''), (''Radius'', ''3''), (''Energy'', ''MI'')] ''Energy''"
    by (simp add: Contains_def)
  have pos: "Find [(''Energy'', ''CC''), (''Radius'', ''3''), (''Energy'', ''MI'')] ''Energy'' = 0"
    by simp
  have name: "ToString EM_SSD = ''SSD''"
    by (simp add: ToString_is_literal)
  from absent
    C4_Insert_appends_or_overwrites
      [of "[(''Radius'', ''3''), (''Energy'', ''CC'')]" "''Step''" ToString EM_SSD]
  have a: "Insert ToString [(''Radius'', ''3''), (''Energy'', ''CC'')] ''Step'' EM_SSD =
      [(''Radius'', ''3''), (''Energy'', ''CC'')] @ [(''Step'', ToString EM_SSD)]"
    by blast
  from present
    C4_Insert_appends_or_overwrites
      [of "[(''Energy'', ''CC''), (''Radius'', ''3''), (''Energy'', ''MI'')]" "''Energy''"
          ToString EM_SSD]
  have b: "Insert ToString [(''Energy'', ''CC''), (''Radius'', ''3''), (''Energy'', ''MI'')]
        ''Energy'' EM_SSD =
      [(''Energy'', ''CC''), (''Radius'', ''3''), (''Energy'', ''MI'')]
        [Find [(''Energy'', ''CC''), (''Radius'', ''3''), (''Energy'', ''MI'')] ''Energy'' :=
          (''Energy'', ToString EM_SSD)]"
    and c: "Get (Insert ToString [(''Energy'', ''CC''), (''Radius'', ''3''), (''Energy'', ''MI'')]
        ''Energy'' EM_SSD) ''Energy'' = ToString EM_SSD"
    by blast+
  from absent present pos a b c name show ?thesis
    by simp
qed

text \<open>
  Claim C7. The overload of \<open>Insert\<close> for \<open>string\<close> values and the generic overload,
  which stores \<open>ToString(value)\<close>, give the same list for every list, name and string
  value: the generic overload is the string overload applied to the formatted value,
  and formatting a string with the default field width returns the string. The
  overload for \<open>const char *\<close> values agrees with both.
\<close>

theorem C7_Insert_overloads_agree:
  "Insert fmt L n x = Insert_string L n (fmt x) \<and>
   Insert (\<lambda>s. ToString_str s 0 (CHR '' '') False) L n v = Insert_string L n v \<and>
   Insert_cstr L n v = Insert_string L n v"
  by (simp add: Insert_def Insert_string_def Insert_cstr_def ToString_str_default)

subsection \<open>\<open>Remove\<close> and duplicate names\<close>

lemma Remove_absent: "\<not> Contains params name \<Longrightarrow> Remove params name = params"
  by (simp add: Remove_def Contains_def)

lemma Remove_present:
  "Contains params name \<Longrightarrow>
    Remove params name = take (Find params name) params @ drop (Suc (Find params name)) params"
  by (simp add: Remove_def Contains_def Let_def)

lemma Contains_take_Find: "\<not> Contains (take (Find params name) params) name"
proof -
  have "fst e \<noteq> name" if "e \<in> set (take (Find params name) params)" for e
  proof -
    from that obtain k where k: "k < length (take (Find params name) params)"
      and e: "e = take (Find params name) params ! k"
      by (auto simp: in_set_conv_nth)
    then have "k < Find params name" by simp
    then have "fst (params ! k) \<noteq> name" by (rule Find_least)
    with k e show ?thesis by simp
  qed
  then show ?thesis
    by (auto simp: Contains_iff)
qed

text \<open>Where all names are different, the removed name is gone from the whole list.\<close>

lemma Contains_Remove_distinct:
  assumes "distinct (map fst params)"
  shows "\<not> Contains (Remove params name) name"
proof (cases "Contains params name")
  case False
  then show ?thesis by (simp add: Remove_absent)
next
  case True
  let ?i = "Find params name"
  from True have less: "?i < length params"
    by (simp add: Contains_Find_less)
  then have at: "fst (params ! ?i) = name"
    by (rule Find_name)
  have "fst e \<noteq> name" if "e \<in> set (drop (Suc ?i) params)" for e
  proof -
    from that obtain m where m: "m < length (drop (Suc ?i) params)"
      and em: "drop (Suc ?i) params ! m = e"
      unfolding in_set_conv_nth by blast
    define k where "k = Suc ?i + m"
    from m em have k: "Suc ?i \<le> k" "k < length params" and e: "e = params ! k"
      by (auto simp: k_def)
    from k have "k \<noteq> ?i" "k < length (map fst params)" "?i < length (map fst params)"
      by simp_all
    with assms have "map fst params ! k \<noteq> map fst params ! ?i"
      using nth_eq_iff_index_eq [of "map fst params" k ?i] by blast
    with k less at e show ?thesis by simp
  qed
  moreover have "fst e \<noteq> name" if "e \<in> set (take ?i params)" for e
    using that Contains_take_Find [of params name] by (auto simp: Contains_iff)
  ultimately have "name \<notin> fst ` set (take ?i params @ drop (Suc ?i) params)"
    by force
  then have "\<not> Contains (take ?i params @ drop (Suc ?i) params) name"
    unfolding Contains_iff .
  with Remove_present [OF True] show ?thesis
    by simp
qed

text \<open>
  Claim C8. \<open>Remove(L, n)\<close> erases the first entry whose name is \<open>n\<close>, if there is one:
  the entries before it and after it stay, in order, the list is one entry shorter,
  and the entries up to the erased position do not contain \<open>n\<close>. If \<open>n\<close> is absent,
  \<open>Remove\<close> returns \<open>L\<close> unchanged.
\<close>

theorem C8_Remove_erases_first_match:
  "(Contains L n \<longrightarrow>
      Find L n < length L \<and>
      fst (L ! Find L n) = n \<and>
      (\<forall>k<Find L n. fst (L ! k) \<noteq> n) \<and>
      Remove L n = take (Find L n) L @ drop (Suc (Find L n)) L \<and>
      length (Remove L n) = length L - 1 \<and>
      \<not> Contains (take (Find L n) (Remove L n)) n) \<and>
   (\<not> Contains L n \<longrightarrow> Remove L n = L)"
proof (intro conjI impI)
  assume present: "Contains L n"
  then show less: "Find L n < length L"
    by (simp add: Contains_Find_less)
  then show "fst (L ! Find L n) = n"
    by (rule Find_name)
  show "\<forall>k<Find L n. fst (L ! k) \<noteq> n"
    by (simp add: Find_least)
  from present show eq: "Remove L n = take (Find L n) L @ drop (Suc (Find L n)) L"
    by (rule Remove_present)
  from less show "length (Remove L n) = length L - 1"
    by (simp add: eq)
  from less have "take (Find L n) (Remove L n) = take (Find L n) L"
    by (simp add: eq)
  then show "\<not> Contains (take (Find L n) (Remove L n)) n"
    by (simp add: Contains_take_Find)
next
  assume "\<not> Contains L n"
  then show "Remove L n = L"
    by (rule Remove_absent)
qed

theorem C8_Remove_erases_first_match_witness:
  "Contains [(''Radius'', ''3''), (''Energy'', ''CC''), (''Energy'', ''MI'')] ''Energy'' \<and>
   Find [(''Radius'', ''3''), (''Energy'', ''CC''), (''Energy'', ''MI'')] ''Energy'' = 1 \<and>
   Remove [(''Radius'', ''3''), (''Energy'', ''CC''), (''Energy'', ''MI'')] ''Energy'' =
     [(''Radius'', ''3''), (''Energy'', ''MI'')] \<and>
   \<not> Contains [(''Radius'', ''3''), (''Energy'', ''CC''), (''Energy'', ''MI'')] ''Step'' \<and>
   Remove [(''Radius'', ''3''), (''Energy'', ''CC''), (''Energy'', ''MI'')] ''Step'' =
     [(''Radius'', ''3''), (''Energy'', ''CC''), (''Energy'', ''MI'')]"
proof -
  let ?L = "[(''Radius'', ''3''), (''Energy'', ''CC''), (''Energy'', ''MI'')]"
  have present: "Contains ?L ''Energy''"
    by (simp add: Contains_def)
  have absent: "\<not> Contains ?L ''Step''"
    by (simp add: Contains_def)
  have pos: "Find ?L ''Energy'' = 1"
    by simp
  from present C8_Remove_erases_first_match [of ?L "''Energy''"]
  have a: "Remove ?L ''Energy'' =
      take (Find ?L ''Energy'') ?L @ drop (Suc (Find ?L ''Energy'')) ?L"
    by blast
  from absent C8_Remove_erases_first_match [of ?L "''Step''"]
  have b: "Remove ?L ''Step'' = ?L"
    by blast
  from a pos have "Remove ?L ''Energy'' = [(''Radius'', ''3''), (''Energy'', ''MI'')]"
    by simp
  with present absent pos b show ?thesis
    by simp
qed

text \<open>
  Claim C10, as amended. In a list that has the name \<open>n\<close> at the offset \<open>i\<close> for the
  first time and again at a later offset \<open>j\<close>: \<open>Find\<close> returns \<open>i\<close> and \<open>Get\<close> the value
  at \<open>i\<close>; \<open>Insert\<close> overwrites the value at \<open>i\<close> only, every other entry keeps its value
  and its position; \<open>Remove\<close> erases the entry at \<open>i\<close> only, the entries before \<open>i\<close>
  keep their position, and every later entry keeps its value and its order but moves
  one position towards the front, so the duplicate is found at \<open>j - 1\<close>.
\<close>

theorem C10_duplicates_first_occurrence_only:
  assumes "i < j" and "j < length L"
    and "fst (L ! i) = n" and "fst (L ! j) = n"
    and "\<forall>k<i. fst (L ! k) \<noteq> n"
  shows "Find L n = i \<and>
    Get L n = snd (L ! i) \<and>
    Insert fmt L n v = L[i := (n, fmt v)] \<and>
    length (Insert fmt L n v) = length L \<and>
    (\<forall>k<length L. k \<noteq> i \<longrightarrow> Insert fmt L n v ! k = L ! k) \<and>
    Insert fmt L n v ! j = L ! j \<and>
    Remove L n = take i L @ drop (Suc i) L \<and>
    length (Remove L n) = length L - 1 \<and>
    (\<forall>k<i. Remove L n ! k = L ! k) \<and>
    (\<forall>k. i < k \<and> k < length L \<longrightarrow> Remove L n ! (k - 1) = L ! k) \<and>
    Remove L n ! (j - 1) = L ! j"
proof -
  from assms have less: "i < length L"
    by simp
  with assms have pos: "Find L n = i"
    by (intro Find_first_occurrence) simp_all
  with less have present: "Contains L n"
    by (simp add: Contains_Find_less)
  have get: "Get L n = snd (L ! i)"
    using pos less by (simp add: Get_def Let_def)
  have ins: "Insert fmt L n v = L[i := (n, fmt v)]"
    using present pos by (simp add: Insert_is_Insert_string Insert_string_present)
  have rem: "Remove L n = take i L @ drop (Suc i) L"
    using present pos by (simp add: Remove_present)
  have before: "\<forall>k<i. Remove L n ! k = L ! k"
    using less by (simp add: rem nth_append)
  have after: "\<forall>k. i < k \<and> k < length L \<longrightarrow> Remove L n ! (k - 1) = L ! k"
  proof (intro allI impI)
    fix k assume k: "i < k \<and> k < length L"
    then have "\<not> k - 1 < i"
      by arith
    then have "Remove L n ! (k - 1) = drop (Suc i) L ! (k - 1 - i)"
      using less by (simp add: rem nth_append)
    also have "\<dots> = L ! (Suc i + (k - 1 - i))"
      using k by simp
    also have "Suc i + (k - 1 - i) = k"
      using k by arith
    finally show "Remove L n ! (k - 1) = L ! k" .
  qed
  from after assms(1,2) have dup: "Remove L n ! (j - 1) = L ! j"
    by blast
  from less have len: "length (Remove L n) = length L - 1"
    by (simp add: rem)
  from assms(1) have "Insert fmt L n v ! j = L ! j"
    by (simp add: ins)
  with pos get ins rem before after dup len show ?thesis
    by simp
qed

theorem C10_duplicates_first_occurrence_only_witness:
  "Find [(''Radius'', ''3''), (''Energy'', ''CC''), (''Energy'', ''MI'')] ''Energy'' = 1 \<and>
   Get [(''Radius'', ''3''), (''Energy'', ''CC''), (''Energy'', ''MI'')] ''Energy'' = ''CC'' \<and>
   Insert ToString [(''Radius'', ''3''), (''Energy'', ''CC''), (''Energy'', ''MI'')]
     ''Energy'' EM_SSD = [(''Radius'', ''3''), (''Energy'', ''SSD''), (''Energy'', ''MI'')] \<and>
   Remove [(''Radius'', ''3''), (''Energy'', ''CC''), (''Energy'', ''MI'')] ''Energy'' =
     [(''Radius'', ''3''), (''Energy'', ''MI'')]"
proof -
  let ?L = "[(''Radius'', ''3''), (''Energy'', ''CC''), (''Energy'', ''MI'')]"
  have h: "(1::nat) < 2" "2 < length ?L" "fst (?L ! 1) = ''Energy''" "fst (?L ! 2) = ''Energy''"
    "\<forall>k<1. fst (?L ! k) \<noteq> ''Energy''"
    by simp_all
  have name: "ToString EM_SSD = ''SSD''"
    by (simp add: ToString_is_literal)
  from C10_duplicates_first_occurrence_only [OF h, of ToString EM_SSD] name
  show ?thesis
    by simp
qed

text \<open>
  Claim C10 as stated says that \<open>Remove\<close> leaves every later duplicate at its position.
  Erasing the first of two entries named \<open>Energy\<close> moves the second from offset 2 to
  offset 1; the shorter list has no offset 2 any more.
\<close>

theorem C10_Remove_moves_later_duplicate:
  "fst ([(''Radius'', ''3''), (''Energy'', ''CC''), (''Energy'', ''MI'')] ! 2) = ''Energy'' \<and>
   Find [(''Radius'', ''3''), (''Energy'', ''CC''), (''Energy'', ''MI'')] ''Energy'' = 1 \<and>
   Remove [(''Radius'', ''3''), (''Energy'', ''CC''), (''Energy'', ''MI'')] ''Energy'' =
     [(''Radius'', ''3''), (''Energy'', ''MI'')] \<and>
   length (Remove [(''Radius'', ''3''), (''Energy'', ''CC''), (''Energy'', ''MI'')] ''Energy'') = 2 \<and>
   Remove [(''Radius'', ''3''), (''Energy'', ''CC''), (''Energy'', ''MI'')] ''Energy'' ! 1 =
     [(''Radius'', ''3''), (''Energy'', ''CC''), (''Energy'', ''MI'')] ! 2"
  by (simp add: Remove_def)

subsection \<open>Merging one list into another\<close>

lemma tolower_R: "tolower (CHR ''R'') = CHR ''r''"
  by code_simp

lemma tolower_S: "tolower (CHR ''S'') = CHR ''s''"
  by code_simp

lemma tolower_terminator: "tolower (CHR 0x00) = CHR 0x00"
  by (simp add: tolower_def)

lemma lower_first_buffer_Nil: "lower_first_buffer [] = [CHR 0x00]"
  by (simp add: lower_first_buffer_def tolower_terminator)

lemma lower_first_buffer_Cons: "lower_first_buffer (c # cs) = tolower c # cs @ [CHR 0x00]"
  by (simp add: lower_first_buffer_def)

lemma length_lower_first_buffer: "length (lower_first_buffer name) = Suc (length name)"
  by (simp add: lower_first_buffer_def Let_def)

lemma lower_first_buffer_terminated: "lower_first_buffer name ! length name = CHR 0x00"
  by (cases name) (simp_all add: lower_first_buffer_Nil lower_first_buffer_Cons nth_append)

lemma lower_first_Nil: "lower_first [] = []"
  by (simp add: lower_first_def)

lemma lower_first_Cons: "lower_first (c # cs) = tolower c # cs"
  by (simp add: lower_first_def lower_first_buffer_Cons)

lemma length_lower_first: "length (lower_first name) = length name"
  by (cases name) (simp_all add: lower_first_Nil lower_first_Cons)

lemma lower_first_qualified_name: "prefix @ '' '' @ lower_first name = qualified_name prefix name"
  by (cases name) (simp_all add: lower_first_Nil lower_first_Cons qualified_name_def)

lemma Insert_prefixed_qualified:
  "Insert_prefixed params other prefix = Insert_verbatim params (qualified_list prefix other)"
proof (induction other arbitrary: params)
  case Nil
  show ?case by (simp add: qualified_list_def)
next
  case (Cons it other)
  have "Insert_prefixed params (it # other) prefix =
      Insert_prefixed (Insert_string params (qualified_name prefix (fst it)) (snd it)) other prefix"
    by (simp add: lower_first_qualified_name del: append.simps)
  also have "\<dots> = Insert_verbatim (Insert_string params (qualified_name prefix (fst it)) (snd it))
      (qualified_list prefix other)"
    by (rule Cons.IH)
  also have "\<dots> = Insert_verbatim params (qualified_list prefix (it # other))"
    by (simp add: qualified_list_def)
  finally show ?case .
qed

lemma Insert_verbatim_foldl:
  "Insert_verbatim params other =
    foldl (\<lambda>ps it. Insert_string ps (fst it) (snd it)) params other"
  by (induction other arbitrary: params) simp_all

lemma names_Insert_string:
  "fst ` set (Insert_string params name val) = insert name (fst ` set params)"
proof (cases "Contains params name")
  case True
  then have less: "Find params name < length params"
    by (simp add: Contains_Find_less)
  then have at: "fst (params ! Find params name) = name"
    by (rule Find_name)
  have "map fst (params[Find params name := (name, val)]) = map fst params"
    using less at by (simp add: map_update list_update_same_conv)
  then have "fst ` set (params[Find params name := (name, val)]) = fst ` set params"
    by (metis set_map)
  moreover from True have "name \<in> fst ` set params"
    by (simp add: Contains_iff)
  ultimately show ?thesis
    using True by (auto simp: Insert_string_present)
next
  case False
  then show ?thesis
    by (simp add: Insert_string_absent)
qed

lemma names_Insert_verbatim:
  "fst ` set (Insert_verbatim params other) = fst ` set params \<union> fst ` set other"
  by (induction other arbitrary: params) (auto simp: names_Insert_string)

lemma names_Insert_prefixed:
  "fst ` set (Insert_prefixed params other prefix) =
    fst ` set params \<union> qualified_name prefix ` fst ` set other"
proof -
  have "fst ` set (qualified_list prefix other) = qualified_name prefix ` fst ` set other"
    by (force simp: qualified_list_def)
  then show ?thesis
    by (simp add: Insert_prefixed_qualified names_Insert_verbatim)
qed

text \<open>
  Claim C3. With a prefix, the key of every merged entry is the prefix, a space, and
  the source name with its first letter in lower case and the rest unchanged: for
  every target and source list, merging under the prefix is merging the renamed list
  verbatim, by the same update-or-append rule, and the names of the result are those
  of the target together with the renamed source names. Without a prefix the entries
  are merged under their own names, one \<open>Insert\<close> after the other. Merging
  \<open>[("Radius", "3")]\<close> into the empty list under the prefix \<open>Inner\<close> gives
  \<open>[("Inner radius", "3")]\<close>.
\<close>

theorem C3_Insert_list_with_prefix:
  "Insert_list params other (Some prefix) =
     Insert_list params (qualified_list prefix other) None \<and>
   Insert_list params other (Some prefix) =
     foldl (\<lambda>ps it. Insert_string ps (qualified_name prefix (fst it)) (snd it)) params other \<and>
   fst ` set (Insert_list params other (Some prefix)) =
     fst ` set params \<union> qualified_name prefix ` fst ` set other \<and>
   (\<forall>c cs. qualified_name prefix (c # cs) = prefix @ '' '' @ tolower c # cs) \<and>
   Insert_list params other None =
     foldl (\<lambda>ps it. Insert_string ps (fst it) (snd it)) params other \<and>
   Insert_list [] [(''Radius'', ''3'')] (Some ''Inner'') = [(''Inner radius'', ''3'')]"
proof (intro conjI allI)
  show "Insert_list params other (Some prefix) =
      Insert_list params (qualified_list prefix other) None"
    by (simp add: Insert_list_def Insert_prefixed_qualified)
  have "Insert_verbatim params (qualified_list prefix other) =
      foldl (\<lambda>ps it. Insert_string ps (qualified_name prefix (fst it)) (snd it)) params other"
    by (simp add: Insert_verbatim_foldl qualified_list_def foldl_map)
  then show "Insert_list params other (Some prefix) =
      foldl (\<lambda>ps it. Insert_string ps (qualified_name prefix (fst it)) (snd it)) params other"
    by (simp add: Insert_list_def Insert_prefixed_qualified)
  show "fst ` set (Insert_list params other (Some prefix)) =
      fst ` set params \<union> qualified_name prefix ` fst ` set other"
    by (simp add: Insert_list_def names_Insert_prefixed)
  show "qualified_name prefix (c # cs) = prefix @ '' '' @ tolower c # cs" for c cs
    by (simp add: qualified_name_def)
  show "Insert_list params other None =
      foldl (\<lambda>ps it. Insert_string ps (fst it) (snd it)) params other"
    by (simp add: Insert_list_def Insert_verbatim_foldl)
  show "Insert_list [] [(''Radius'', ''3'')] (Some ''Inner'') = [(''Inner radius'', ''3'')]"
    by (simp add: Insert_list_def lower_first_Cons tolower_R Insert_string_def)
qed

text \<open>
  Claim C9, as amended. The merge under a prefix reads and writes position 0 of the
  name of every source entry. For a non-empty name that is its first character. For
  an empty name position 0 holds the terminator of the string, which \<open>tolower\<close> maps to
  itself: the array stays terminated, the name stays empty, and the entry is merged
  under the key made of the prefix and a space. So the merge of a source list into
  another list returns a list for every source list, the names of which are those of
  the target and the renamed source names, the empty one included.
\<close>

theorem C9_first_letter_write:
  "length (lower_first_buffer name) = Suc (length name) \<and>
   lower_first_buffer name ! length name = CHR 0x00 \<and>
   length (lower_first name) = length name \<and>
   (\<forall>c cs. lower_first_buffer (c # cs) = tolower c # cs @ [CHR 0x00]) \<and>
   (\<forall>c cs. lower_first (c # cs) = tolower c # cs) \<and>
   lower_first_buffer [] = [CHR 0x00] \<and>
   lower_first [] = [] \<and>
   Insert_list params (([], v) # other) (Some prefix) =
     Insert_list (Insert_string params (prefix @ '' '') v) other (Some prefix) \<and>
   fst ` set (Insert_list params other (Some prefix)) =
     fst ` set params \<union> (\<lambda>name. prefix @ '' '' @ lower_first name) ` fst ` set other"
proof -
  have names: "fst ` set (Insert_list params other (Some prefix)) =
      fst ` set params \<union> (\<lambda>name. prefix @ '' '' @ lower_first name) ` fst ` set other"
    by (simp only: lower_first_qualified_name) (simp add: Insert_list_def names_Insert_prefixed)
  have empty: "Insert_list params (([], v) # other) (Some prefix) =
      Insert_list (Insert_string params (prefix @ '' '') v) other (Some prefix)"
    by (simp add: Insert_list_def lower_first_Nil)
  from names empty show ?thesis
    by (simp add: length_lower_first_buffer lower_first_buffer_terminated length_lower_first
        lower_first_buffer_Cons lower_first_Cons lower_first_buffer_Nil lower_first_Nil)
qed

text \<open>
  Claim C9 as stated gives the merge an error branch that is taken exactly for empty
  names. The code has no such branch: with an empty second name it goes on and merges
  that entry under the key \<open>Inner\<close> followed by a space.
\<close>

theorem C9_empty_name_is_merged:
  "lower_first [] = [] \<and>
   Insert_list [] [(''Radius'', ''3''), ([], ''7'')] (Some ''Inner'') =
     [(''Inner radius'', ''3''), (''Inner '', ''7'')]"
  by (simp add: Insert_list_def lower_first_Nil lower_first_Cons tolower_R Insert_string_def)

subsection \<open>Merging a list into itself\<close>

lemma Find_le_index: "i < length params \<Longrightarrow> fst (params ! i) = name \<Longrightarrow> Find params name \<le> i"
proof (rule ccontr)
  assume "i < length params" and at: "fst (params ! i) = name"
    and "\<not> Find params name \<le> i"
  then have "i < Find params name" by simp
  then have "fst (params ! i) \<noteq> name" by (rule Find_least)
  with at show False by simp
qed

lemma Insert_list_call_Other:
  "Insert_list_call capacity params (Other entries) prefix = Inr (Insert_list params entries prefix)"
  by (simp add: Insert_list_call_def)

lemma Insert_self_unfold:
  "i < length params \<Longrightarrow>
    Insert_self capacity key params i =
      (if Find params (key (fst (params ! i))) = length params \<and> capacity \<le> length params
       then Inl IteratorInvalidated
       else Insert_self capacity key
         (Insert_string params (key (fst (params ! i))) (snd (params ! i))) (Suc i))"
  by (subst Insert_self.simps) (simp add: Let_def)

lemma Insert_self_end: "\<not> i < length params \<Longrightarrow> Insert_self capacity key params i = Inr params"
  by (subst Insert_self.simps) simp

lemma Insert_self_stop:
  assumes "i < length params"
    and "Find params (key (fst (params ! i))) = length params \<and> capacity \<le> length params"
  shows "Insert_self capacity key params i = Inl IteratorInvalidated"
  unfolding Insert_self_unfold [OF assms(1)] using assms(2) by (rule if_P)

lemma Insert_self_step:
  assumes "i < length params"
    and "\<not> (Find params (key (fst (params ! i))) = length params \<and> capacity \<le> length params)"
  shows "Insert_self capacity key params i =
    Insert_self capacity key
      (Insert_string params (key (fst (params ! i))) (snd (params ! i))) (Suc i)"
  unfolding Insert_self_unfold [OF assms(1)] using assms(2) by (rule if_not_P)

text \<open>
  Without a prefix every name the loop looks for is found, at the latest in the entry
  the iterator is at, so nothing is appended and the iterator stays valid.
\<close>

lemma Insert_self_verbatim_defined: "\<exists>r. Insert_self capacity (\<lambda>name. name) params i = Inr r"
proof (induction capacity "\<lambda>name::string. name" params i rule: Insert_self.induct)
  case (1 capacity params i)
  show ?case
  proof (cases "i < length params")
    case False
    then show ?thesis
      by (simp add: Insert_self_end)
  next
    case True
    then have "Find params (fst (params ! i)) \<le> i"
      by (intro Find_le_index) simp_all
    with True have found: "Find params (fst (params ! i)) \<noteq> length params"
      by simp
    then have "Insert_self capacity (\<lambda>name. name) params i =
        Insert_self capacity (\<lambda>name. name)
          (Insert_string params (fst (params ! i)) (snd (params ! i))) (Suc i)"
      using True by (intro Insert_self_step) simp_all
    moreover have "\<exists>r. Insert_self capacity (\<lambda>name. name)
        (Insert_string params (fst (params ! i)) (snd (params ! i))) (Suc i) = Inr r"
      using True found by (intro "1.hyps") simp_all
    ultimately show ?thesis by simp
  qed
qed

text \<open>
  With a key that is longer than the name it is made from, as the key under a prefix
  is, the loop cannot reach the end of the vector: the renamed longest name is never
  found, so entries keep being appended until the vector is full.
\<close>

lemma Insert_self_longer_key:
  "\<forall>name. length name < length (key name) \<Longrightarrow>
   \<exists>m. i \<le> m \<and> m < length params \<and>
     (\<forall>k<length params. length (fst (params ! k)) \<le> length (fst (params ! m))) \<Longrightarrow>
   Insert_self capacity key params i = Inl IteratorInvalidated"
proof (induction capacity key params i rule: Insert_self.induct)
  case (1 capacity key params i)
  from "1.prems"(2) obtain m where m: "i \<le> m" "m < length params"
    and maxm: "\<forall>k<length params. length (fst (params ! k)) \<le> length (fst (params ! m))"
    by blast
  then have i: "i < length params"
    by simp
  let ?name = "key (fst (params ! i))" and ?val = "snd (params ! i)"
  let ?params' = "Insert_string params ?name ?val"
  have longer: "length (fst (params ! i)) < length ?name"
    using "1.prems"(1) by simp
  show ?case
  proof (cases "Find params ?name = length params \<and> capacity \<le> length params")
    case True
    with i show ?thesis
      by (rule Insert_self_stop)
  next
    case False
    with i have step: "Insert_self capacity key params i =
        Insert_self capacity key ?params' (Suc i)"
      by (rule Insert_self_step)
    have ahead: "\<exists>m'. Suc i \<le> m' \<and> m' < length ?params' \<and>
        (\<forall>k<length ?params'. length (fst (?params' ! k)) \<le> length (fst (?params' ! m')))"
    proof (cases "Contains params ?name")
      case True
      then have upd: "?params' = params[Find params ?name := (?name, ?val)]"
        by (rule Insert_string_present)
      from True have pos: "Find params ?name < length params"
        by (simp add: Contains_Find_less)
      then have at: "fst (params ! Find params ?name) = ?name"
        by (rule Find_name)
      have keys: "fst (?params' ! k) = fst (params ! k)" if "k < length params" for k
        using that at by (cases "k = Find params ?name") (simp_all add: upd)
      have len: "length ?params' = length params"
        by (simp add: upd)
      have "i \<noteq> m"
      proof
        assume "i = m"
        with longer have "length (fst (params ! m)) < length ?name"
          by simp
        moreover from maxm pos have
          "length (fst (params ! Find params ?name)) \<le> length (fst (params ! m))"
          by blast
        ultimately show False
          using at by simp
      qed
      with m have next_le: "Suc i \<le> m"
        by simp
      have top: "\<forall>k<length ?params'. length (fst (?params' ! k)) \<le> length (fst (?params' ! m))"
      proof (intro allI impI)
        fix k assume "k < length ?params'"
        then have k: "k < length params"
          by (simp only: len)
        with maxm have "length (fst (params ! k)) \<le> length (fst (params ! m))"
          by blast
        then show "length (fst (?params' ! k)) \<le> length (fst (?params' ! m))"
          by (simp only: keys [OF k] keys [OF m(2)])
      qed
      show ?thesis
      proof (intro exI conjI)
        show "Suc i \<le> m" by (rule next_le)
        show "m < length ?params'" using m(2) by (simp only: len)
        show "\<forall>k<length ?params'. length (fst (?params' ! k)) \<le> length (fst (?params' ! m))"
          by (rule top)
      qed
    next
      case False
      then have app: "?params' = params @ [(?name, ?val)]"
        by (rule Insert_string_absent)
      show ?thesis
      proof (cases "length (fst (params ! m)) \<le> length ?name")
        case True
        have top: "\<forall>k<length ?params'.
            length (fst (?params' ! k)) \<le> length (fst (?params' ! length params))"
        proof (intro allI impI)
          fix k assume "k < length ?params'"
          then have "k < length params \<or> k = length params"
            by (auto simp: app)
          then show "length (fst (?params' ! k)) \<le> length (fst (?params' ! length params))"
          proof
            assume k: "k < length params"
            with maxm have "length (fst (params ! k)) \<le> length (fst (params ! m))"
              by blast
            with True k show ?thesis
              by (simp add: app nth_append)
          next
            assume "k = length params"
            then show ?thesis by simp
          qed
        qed
        show ?thesis
        proof (intro exI conjI)
          show "Suc i \<le> length params" using i by simp
          show "length params < length ?params'" by (simp add: app)
          show "\<forall>k<length ?params'.
              length (fst (?params' ! k)) \<le> length (fst (?params' ! length params))"
            by (rule top)
        qed
      next
        case False
        have "i \<noteq> m"
        proof
          assume "i = m"
          with longer False show False by simp
        qed
        with m have next_le: "Suc i \<le> m"
          by simp
        have top: "\<forall>k<length ?params'. length (fst (?params' ! k)) \<le> length (fst (?params' ! m))"
        proof (intro allI impI)
          fix k assume "k < length ?params'"
          then have "k < length params \<or> k = length params"
            by (auto simp: app)
          then show "length (fst (?params' ! k)) \<le> length (fst (?params' ! m))"
          proof
            assume k: "k < length params"
            with maxm have "length (fst (params ! k)) \<le> length (fst (params ! m))"
              by blast
            with k m show ?thesis
              by (simp add: app nth_append)
          next
            assume "k = length params"
            with False m show ?thesis
              by (simp add: app nth_append)
          qed
        qed
        show ?thesis
        proof (intro exI conjI)
          show "Suc i \<le> m" by (rule next_le)
          show "m < length ?params'" using m by (simp add: app)
          show "\<forall>k<length ?params'. length (fst (?params' ! k)) \<le> length (fst (?params' ! m))"
            by (rule top)
        qed
      qed
    qed
    have "Insert_self capacity key ?params' (Suc i) = Inl IteratorInvalidated"
      using i False "1.prems"(1) ahead by (intro "1.IH") simp_all
    with step show ?thesis
      by simp
  qed
qed

text \<open>
  Under a prefix a non-empty vector can therefore not be merged into itself: whatever
  its capacity, the loop ends with an iterator into released storage.
\<close>

lemma Insert_list_call_Same_prefix:
  assumes "params \<noteq> []"
  shows "Insert_list_call capacity params Same (Some prefix) = Inl IteratorInvalidated"
proof -
  let ?sizes = "map (\<lambda>e. length (fst e)) params"
  from assms have "Max (set ?sizes) \<in> set ?sizes"
    by (intro Max_in) simp_all
  then obtain m where m: "m < length params" and top: "?sizes ! m = Max (set ?sizes)"
    by (auto simp: in_set_conv_nth)
  have "\<forall>k<length params. length (fst (params ! k)) \<le> length (fst (params ! m))"
  proof (intro allI impI)
    fix k assume k: "k < length params"
    then have "?sizes ! k \<in> set ?sizes"
      by (intro nth_mem) simp
    then have "?sizes ! k \<le> Max (set ?sizes)"
      by (intro Max_ge) simp_all
    with k m top show "length (fst (params ! k)) \<le> length (fst (params ! m))"
      by simp
  qed
  with m have "\<exists>m. 0 \<le> m \<and> m < length params \<and>
      (\<forall>k<length params. length (fst (params ! k)) \<le> length (fst (params ! m)))"
    by (intro exI [of _ m]) simp
  moreover have "\<forall>name. length name < length (prefix @ '' '' @ lower_first name)"
    by (simp add: length_lower_first)
  ultimately have "Insert_self capacity (\<lambda>name. prefix @ '' '' @ lower_first name) params 0 =
      Inl IteratorInvalidated"
    by (rule Insert_self_longer_key [rotated])
  then show ?thesis
    by (simp add: Insert_list_call_def)
qed

lemma Insert_list_call_Same_verbatim:
  "\<exists>r. Insert_list_call capacity params Same None = Inr r"
  by (simp add: Insert_list_call_def Insert_self_verbatim_defined)

lemma Insert_list_call_Same_example:
  "Insert_list_call 1 [(''Radius'', ''3'')] Same (Some ''Inner'') = Inl IteratorInvalidated \<and>
   Insert_list_call 2 [(''Radius'', ''3'')] Same (Some ''Inner'') = Inl IteratorInvalidated \<and>
   Insert_list_call 1 [(''Radius'', ''3'')] (Other [(''Radius'', ''3'')]) (Some ''Inner'') =
     Inr [(''Radius'', ''3''), (''Inner radius'', ''3'')] \<and>
   Insert_list_call 2 [(''Radius'', ''3''), (''Radius'', ''4'')] Same None =
     Inr [(''Radius'', ''4''), (''Radius'', ''4'')]"
  by (simp add: Insert_list_call_def Insert_self.simps Insert_list_def Insert_string_def
      lower_first_Cons tolower_R Let_def)

subsection \<open>Applying a parameter list to an object\<close>

lemma Parameter_foldl:
  "Parameter Set_m this param = foldl (\<lambda>obj it. snd (Set_m obj (fst it) (snd it))) this param"
  by (induction param arbitrary: this) simp_all

lemma Parameter_logged:
  "Parameter (logged Set_m) (this, calls) param = (Parameter Set_m this param, calls @ param)"
  by (induction param arbitrary: this calls) (simp_all add: logged_def)

lemma Parameter_flags_dropped:
  "\<forall>obj n v. snd (Set1 obj n v) = snd (Set2 obj n v) \<Longrightarrow>
    Parameter Set1 this param = Parameter Set2 this param"
  by (induction param arbitrary: this) simp_all

lemma Parameter_skips_unknown:
  "\<forall>obj n v. \<not> known n \<longrightarrow> Set_m obj n v = (False, obj) \<Longrightarrow>
    Parameter Set_m this param = Parameter Set_m this (filter (\<lambda>it. known (fst it)) param)"
  by (induction param arbitrary: this) simp_all

lemma Parameter_Object_Set: "Parameter Object_Set this param = this"
  by (induction param) (simp_all add: Object_Set_def)

text \<open>
  Claim C5. \<open>Parameter(list)\<close> calls \<open>Set\<close> once for each entry, in list order, with the
  name and the value of the entry: run with any \<open>Set\<close> that is observed by a log, it
  leaves the object that the loop without the log produces, and the log grows by
  exactly the entries of the list, in order. The flags returned by \<open>Set\<close> are never
  used: two \<open>Set\<close> members with the same effect on the object give the same result
  whatever flags they return. Where \<open>Set\<close> fails on the names it does not know and
  leaves the object as it is, those entries might as well be absent from the list. The
  \<open>Set\<close> of the root class returns false for every name and value, and applying any
  list to such an object changes nothing.
\<close>

theorem C5_Parameter_calls_Set_per_entry:
  "Parameter (logged Set_m) (this, calls) param =
     (Parameter Set_m this param, calls @ param) \<and>
   Parameter Set_m this param =
     foldl (\<lambda>obj it. snd (Set_m obj (fst it) (snd it))) this param \<and>
   ((\<forall>obj n v. snd (Set1 obj n v) = snd (Set_m obj n v)) \<longrightarrow>
      Parameter Set1 this param = Parameter Set_m this param) \<and>
   ((\<forall>obj n v. \<not> known n \<longrightarrow> Set_m obj n v = (False, obj)) \<longrightarrow>
      Parameter Set_m this param =
        Parameter Set_m this (filter (\<lambda>it. known (fst it)) param)) \<and>
   fst (Object_Set this n v) = False \<and>
   snd (Object_Set this n v) = this \<and>
   Parameter Object_Set this param = this"
proof (intro conjI impI)
  show "Parameter (logged Set_m) (this, calls) param =
      (Parameter Set_m this param, calls @ param)"
    by (rule Parameter_logged)
  show "Parameter Set_m this param =
      foldl (\<lambda>obj it. snd (Set_m obj (fst it) (snd it))) this param"
    by (rule Parameter_foldl)
  show "Parameter Set1 this param = Parameter Set_m this param"
    if "\<forall>obj n v. snd (Set1 obj n v) = snd (Set_m obj n v)"
    using that by (rule Parameter_flags_dropped)
  show "Parameter Set_m this param =
      Parameter Set_m this (filter (\<lambda>it. known (fst it)) param)"
    if "\<forall>obj n v. \<not> known n \<longrightarrow> Set_m obj n v = (False, obj)"
    using that by (rule Parameter_skips_unknown)
  show "Parameter Object_Set this param = this"
    by (rule Parameter_Object_Set)
qed (simp_all add: Object_Set_def)

theorem C5_Parameter_calls_Set_per_entry_witness:
  "Parameter (logged (\<lambda>obj n v. if n = ''Radius'' then (True, v) else (False, obj)))
     (''1'', []) [(''Legacy'', ''9''), (''Radius'', ''3'')] =
     (''3'', [(''Legacy'', ''9''), (''Radius'', ''3'')]) \<and>
   Parameter (\<lambda>obj n v. if n = ''Radius'' then (True, v) else (False, obj))
     ''1'' [(''Legacy'', ''9''), (''Radius'', ''3'')] = ''3'' \<and>
   Parameter (\<lambda>obj n v. if n = ''Radius'' then (True, v) else (False, obj))
     ''1'' [(''Radius'', ''3'')] = ''3'' \<and>
   Parameter (\<lambda>obj n v. if n = ''Radius'' then (False, v) else (True, obj))
     ''1'' [(''Legacy'', ''9''), (''Radius'', ''3'')] = ''3'' \<and>
   Parameter Object_Set ''1'' [(''Legacy'', ''9''), (''Radius'', ''3'')] = ''1''"
proof -
  let ?Set = "\<lambda>(obj::string) (n::string) (v::string).
    if n = ''Radius'' then (True, v) else (False, obj)"
  let ?Set1 = "\<lambda>(obj::string) (n::string) (v::string).
    if n = ''Radius'' then (False, v) else (True, obj)"
  let ?known = "\<lambda>n::string. n = ''Radius''"
  let ?param = "[(''Legacy'', ''9''), (''Radius'', ''3'')]"
  have same: "\<forall>obj n v. snd (?Set1 obj n v) = snd (?Set obj n v)"
    by simp
  have unknown: "\<forall>obj n v. \<not> ?known n \<longrightarrow> ?Set obj n v = (False, obj)"
    by simp
  note C5 = C5_Parameter_calls_Set_per_entry
    [of ?Set "''1''" "[]" ?param ?Set1 ?known]
  from C5 have a: "Parameter (logged ?Set) (''1'', []) ?param =
      (Parameter ?Set ''1'' ?param, [] @ ?param)"
    by blast
  from C5 same have b: "Parameter ?Set1 ''1'' ?param = Parameter ?Set ''1'' ?param"
    by blast
  from C5 unknown have c: "Parameter ?Set ''1'' ?param =
      Parameter ?Set ''1'' (filter (\<lambda>it. ?known (fst it)) ?param)"
    by blast
  have d: "Parameter ?Set ''1'' [(''Radius'', ''3'')] = ''3''"
    by simp
  have e: "Parameter Object_Set ''1'' ?param = ''1''"
    by (simp add: Object_Set_def)
  from c d have f: "Parameter ?Set ''1'' ?param = ''3''"
    by simp
  from a b d e f show ?thesis
    by simp
qed

end
